theory Spec2Isabelle
  imports Complex_Main "HOL-Library.Char_ord" "HOL-Library.List_Lexorder" "HOL-Library.Multiset"
begin

section \<open>The loaded frame\<close>

text \<open>
  \<^verbatim>\<open>families = pd.read_csv('./data/families.csv', sep='\t', header=None)\<close> gives a
  frame with the columns \<^verbatim>\<open>head\<close>, \<^verbatim>\<open>relation\<close> and \<^verbatim>\<open>tail\<close>. The loader itself is not
  modelled: the model starts from the frame that it returns. A cell of that frame is a
  str, a number, or the missing value: the loader reads a column of numerals (or of truth
  values) as numbers, and an empty field or a text such as \<^verbatim>\<open>NA\<close>, \<^verbatim>\<open>nan\<close> or \<^verbatim>\<open>null\<close> as
  the missing value. A column holds strs or numbers, not both, next to missing values.

  A frame whose index is the default range 0, 1, ... is the list of its rows; a frame
  that carries other index labels is a list of pairs of a label and a row.
\<close>

datatype cell = Str string | Num real | NaN

record loaded_row =
  head_cell :: cell
  relation_cell :: cell
  tail_cell :: cell

text \<open>
  The errors that the notebook's calls raise. \<^verbatim>\<open>TypeError\<close>: numpy cannot order a str and
  a number. \<^verbatim>\<open>AttributeError\<close>: the tokenizer calls \<^verbatim>\<open>.lower()\<close> on a number.
  \<^verbatim>\<open>IntCastError\<close>: \<^verbatim>\<open>.astype('int')\<close> meets a missing value (pandas reports a ValueError
  or a TypeError, depending on the inferred column type: one error value stands for
  both). \<^verbatim>\<open>IndexError\<close>: numpy is asked for a row that does not exist.
\<close>

datatype error = TypeError | AttributeError | IntCastError | IndexError

text \<open>
  Only a frame whose head and tail cells are all strs gets past the cells that build the
  vocabulary (see \<open>load_entities_index\<close> below). The rows of such a frame are the triples:
  head and tail are strs, the relation is any cell.
\<close>

record pair_row =
  head :: string
  tail :: string

record triple = pair_row +
  relation :: cell

section \<open>Vocabulary\<close>

text \<open>
  \<^verbatim>\<open>entities = np.unique(families[['head', 'tail']].values)\<close>: the values of the two
  columns, flattened row by row, without duplicates and in ascending order. The
  definitions of this section up to \<open>entities_index\<close> are the two cells on triples, that
  is, on str heads and tails; \<open>load_entities_index\<close> at its end is the same two cells on
  any loaded frame.
\<close>

definition head_tail_values :: "triple list \<Rightarrow> string list" where
  "head_tail_values families = concat (map (\<lambda>r. [head r, tail r]) families)"

definition np_unique :: "string list \<Rightarrow> string list" where
  "np_unique values = sort (remdups values)"

text \<open>
  \<^verbatim>\<open>str.lower\<close>, on ASCII text: the letters A to Z move to a to z, every other
  character stays.
\<close>

definition lower_char :: "char \<Rightarrow> char" where
  "lower_char c =
     (if 65 \<le> (of_char c :: nat) \<and> (of_char c :: nat) \<le> 90
      then char_of (of_char c + (32 :: nat)) else c)"

definition lower :: "string \<Rightarrow> string" where
  "lower text = map lower_char text"

text \<open>
  \<^verbatim>\<open>text.split(sep)\<close> for a separator of one character: the pieces between the
  separators, empty pieces included. The result is never the empty list, so the last
  branch of the case is not reached.
\<close>

fun split_str :: "string \<Rightarrow> char \<Rightarrow> string list" where
  "split_str [] sep = [[]]"
| "split_str (c # cs) sep =
     (if c = sep then [] # split_str cs sep
      else (case split_str cs sep of
              p # ps \<Rightarrow> (c # p) # ps
            | [] \<Rightarrow> [[c]]))"

text \<open>
  \<^verbatim>\<open>text_to_word_sequence(text, filters='', lower=True, split=" ")\<close> as the tokenizer
  of the notebook calls it: with no filter characters the translation step changes nothing.
\<close>

definition text_to_word_sequence :: "string \<Rightarrow> string list" where
  "text_to_word_sequence text = filter (\<lambda>i. i \<noteq> []) (split_str (lower text) (CHR '' ''))"

text \<open>
  \<^verbatim>\<open>t = Tokenizer(len(entities), filters='', split=" ")\<close> and
  \<^verbatim>\<open>t.fit_on_texts(list(entities))\<close>: every text is cut into words and the words are
  counted. The first argument (\<^verbatim>\<open>num_words\<close>) plays no part in building the word index.
  \<^verbatim>\<open>word_counts\<close> is an ordered dictionary: an association list in insertion order.
\<close>

fun count_word :: "(string \<times> nat) list \<Rightarrow> string \<Rightarrow> (string \<times> nat) list" where
  "count_word [] w = [(w, 1)]"
| "count_word ((k, c) # kcs) w =
     (if k = w then (k, c + 1) # kcs else (k, c) # count_word kcs w)"

definition word_counts :: "string list \<Rightarrow> (string \<times> nat) list" where
  "word_counts texts = foldl count_word [] (concat (map text_to_word_sequence texts))"

text \<open>
  \<^verbatim>\<open>wcounts.sort(key=lambda x: x[1], reverse=True)\<close> is a stable sort by falling
  count; the words in that order get the indices 1, 2, ... (\<^verbatim>\<open>word_index\<close>).
\<close>

definition sorted_voc :: "string list \<Rightarrow> string list" where
  "sorted_voc texts = map fst (sort_key (\<lambda>wc. - int (snd wc)) (word_counts texts))"

definition fit_on_texts :: "string list \<Rightarrow> (string \<times> nat) list" where
  "fit_on_texts texts = zip (sorted_voc texts) [1 ..< length (sorted_voc texts) + 1]"

definition entities_index :: "triple list \<Rightarrow> (string \<times> nat) list" where
  "entities_index families = fit_on_texts (np_unique (head_tail_values families))"
text \<open>\<^verbatim>\<open>entities_index.get(k)\<close>: the index of a key, \<open>None\<close> for a string that is no key.\<close>

definition entities_index_get :: "(string \<times> nat) list \<Rightarrow> string \<Rightarrow> nat option" where
  "entities_index_get word_index k = map_of word_index k"

text \<open>An entity name that the tokenizer keeps whole: not empty and without a space.\<close>

definition plain_entity :: "string \<Rightarrow> bool" where
  "plain_entity e = (e \<noteq> [] \<and> CHR '' '' \<notin> set e)"

text \<open>
  The same two cells of the notebook on any loaded frame. When a head or tail cell is
  not a str, the run stops there: \<^verbatim>\<open>np.unique\<close> cannot sort strs together with numbers
  or missing values, and when there is no str at all the tokenizer fails on the first
  number. Otherwise the vocabulary is that of the triples.
\<close>

definition head_tail_cells :: "loaded_row list \<Rightarrow> cell list" where
  "head_tail_cells families = concat (map (\<lambda>r. [head_cell r, tail_cell r]) families)"

fun is_str :: "cell \<Rightarrow> bool" where
  "is_str (Str s) = True"
| "is_str _ = False"

fun the_str :: "cell \<Rightarrow> string" where
  "the_str (Str s) = s"
| "the_str _ = []"

definition str_triples :: "loaded_row list \<Rightarrow> triple list" where
  "str_triples families =
     map (\<lambda>r. \<lparr>head = the_str (head_cell r), tail = the_str (tail_cell r),
                relation = relation_cell r\<rparr>) families"

definition load_entities_index :: "loaded_row list \<Rightarrow> error + (string \<times> nat) list" where
  "load_entities_index families =
     (if list_all is_str (head_tail_cells families)
      then Inr (entities_index (str_triples families))
      else if list_ex is_str (head_tail_cells families) then Inl TypeError
      else Inl AttributeError)"

section \<open>One-hot relation columns\<close>

text \<open>
  \<^verbatim>\<open>pd.get_dummies(families, columns=['relation'])\<close> replaces the relation column by one
  indicator column per distinct relation that is not missing, the relations in ascending
  order (numbers as numbers, strs as strs). A row whose relation is the missing value
  has 0 in every indicator column (\<^verbatim>\<open>dummy_na=False\<close>).
\<close>

record dummies_row = pair_row +
  relation_cols :: "nat list"

fun num_values :: "cell list \<Rightarrow> real list" where
  "num_values [] = []"
| "num_values (Num x # cs) = x # num_values cs"
| "num_values (_ # cs) = num_values cs"

fun str_values :: "cell list \<Rightarrow> string list" where
  "str_values [] = []"
| "str_values (Str s # cs) = s # str_values cs"
| "str_values (_ # cs) = str_values cs"

definition relation_categories :: "triple list \<Rightarrow> cell list" where
  "relation_categories families =
     map Num (sort (remdups (num_values (map relation families))))
       @ map Str (sort (remdups (str_values (map relation families))))"

definition get_dummies :: "triple list \<Rightarrow> dummies_row list" where
  "get_dummies families =
     map (\<lambda>r. \<lparr>head = head r, tail = tail r,
                relation_cols = map (\<lambda>c. if relation r = c then 1 else 0)
                                    (relation_categories families)\<rparr>) families"

section \<open>Oversampling\<close>

text \<open>
  \<^verbatim>\<open>df.sample(frac=f)\<close> takes \<^verbatim>\<open>n = int(round(f * len(df)))\<close> rows, at the positions
  \<^verbatim>\<open>permutation(len(df))[:n]\<close> drawn by the random generator, and keeps their index
  labels. Python 3 rounds halves to the even neighbour. The fraction is given as a
  numerator and a denominator (0.3 is 3/10) and the product is taken exactly; the
  double-precision product of the notebook rounds to the same integer for every frame
  that fits in memory.

  The generator is a parameter \<open>g\<close>: \<open>g k n\<close> is the permutation of \<open>0, ..., n - 1\<close> that its
  \<open>k\<close>-th call returns, and \<open>valid_rng g\<close> says that every call does return one.
  \<^verbatim>\<open>.reset_index(drop=True)\<close> forgets the labels of the sample, and
  \<^verbatim>\<open>df.append(sample, ignore_index=True)\<close> puts the sample below the frame and numbers
  the rows anew.
\<close>

definition py_round_div :: "nat \<Rightarrow> nat \<Rightarrow> nat" where
  "py_round_div a b =
     (let q = a div b; r = a mod b
      in if 2 * r < b then q
         else if b < 2 * r then q + 1
         else if even q then q else q + 1)"

definition sample_n :: "nat \<times> nat \<Rightarrow> nat \<Rightarrow> nat" where
  "sample_n fraction axis_length = py_round_div (fst fraction * axis_length) (snd fraction)"

definition df_sample :: "nat \<times> nat \<Rightarrow> nat list \<Rightarrow> 'a list \<Rightarrow> (nat \<times> 'a) list" where
  "df_sample fraction permutation df =
     map (\<lambda>i. (i, df ! i)) (take (sample_n fraction (length df)) permutation)"

definition reset_index_drop :: "(nat \<times> 'a) list \<Rightarrow> 'a list" where
  "reset_index_drop df = map snd df"

definition append_ignore_index :: "'a list \<Rightarrow> 'a list \<Rightarrow> 'a list" where
  "append_ignore_index df other = df @ other"

definition valid_rng :: "(nat \<Rightarrow> nat \<Rightarrow> nat list) \<Rightarrow> bool" where
  "valid_rng g = (\<forall>k n. mset (g k n) = mset [0 ..< n])"

text \<open>
  The loop \<^verbatim>\<open>for i in range(20)\<close>: \<open>oversample g i df\<close> is the frame after \<open>i\<close> passes.
\<close>

fun oversample :: "(nat \<Rightarrow> nat \<Rightarrow> nat list) \<Rightarrow> nat \<Rightarrow> 'a list \<Rightarrow> 'a list" where
  "oversample g 0 df = df"
| "oversample g (Suc i) df =
     (let df' = oversample g i df;
          sample = reset_index_drop (df_sample (3, 10) (g i (length df')) df')
      in append_ignore_index df' sample)"

definition augment :: "(nat \<Rightarrow> nat \<Rightarrow> nat list) \<Rightarrow> 'a list \<Rightarrow> 'a list" where
  "augment g df = oversample g 20 df"

text \<open>The number of rows after \<open>i\<close> passes over a frame of \<open>n\<close> rows.\<close>

fun size_after :: "nat \<Rightarrow> nat \<Rightarrow> nat" where
  "size_after 0 n = n"
| "size_after (Suc i) n = (let m = size_after i n in m + sample_n (3, 10) m)"

section \<open>Train, validation and test split\<close>

text \<open>
  \<^verbatim>\<open>train_test_split(arr, test_size=0.1)\<close>: with \<^verbatim>\<open>n_test = ceil(0.1 * n_samples)\<close> and
  \<^verbatim>\<open>n_train = n_samples - n_test\<close>, the test rows are at the first \<open>n_test\<close> positions of
  a random permutation and the training rows at the next \<open>n_train\<close>.
\<close>

definition n_test_of :: "nat \<Rightarrow> nat" where
  "n_test_of n_samples = (n_samples + 9) div 10"

definition train_test_split :: "nat list \<Rightarrow> 'a list \<Rightarrow> 'a list \<times> 'a list" where
  "train_test_split permutation arr =
     (let n_samples = length arr;
          n_test = n_test_of n_samples;
          n_train = n_samples - n_test;
          ind_test = take n_test permutation;
          ind_train = take n_train (drop n_test permutation)
      in (map (\<lambda>i. arr ! i) ind_train, map (\<lambda>i. arr ! i) ind_test))"

text \<open>
  The cell that shuffles and splits. The calls 0 to 19 of the generator were used by the
  oversampling loop; the shuffle is call 20 and the two splits are calls 21 and 22.
  The result is (training, validation, test).
\<close>

definition split_data ::
  "(nat \<Rightarrow> nat \<Rightarrow> nat list) \<Rightarrow> 'a list
     \<Rightarrow> (nat \<times> 'a) list \<times> (nat \<times> 'a) list \<times> (nat \<times> 'a) list" where
  "split_data g df0 =
     (let df = df_sample (1, 1) (g 20 (length df0)) df0;
          (tmp, test_data) = train_test_split (g 21 (length df)) df;
          (training_data, validation_data) = train_test_split (g 22 (length tmp)) tmp
      in (training_data, validation_data, test_data))"

definition prepare ::
  "(nat \<Rightarrow> nat \<Rightarrow> nat list) \<Rightarrow> triple list
     \<Rightarrow> (nat \<times> dummies_row) list \<times> (nat \<times> dummies_row) list \<times> (nat \<times> dummies_row) list" where
  "prepare g families = split_data g (augment g (get_dummies families))"

section \<open>Index encoding\<close>

text \<open>
  \<^verbatim>\<open>data[['head', 'tail']].applymap(lambda x: entities_index.get(str(x).lower()))\<close>
  looks both cells of every row up; \<^verbatim>\<open>dict.get\<close> answers \<^verbatim>\<open>None\<close> for a key it does not
  have. \<^verbatim>\<open>.astype('int')\<close> then raises as soon as one cell is missing.
\<close>

definition applymap_index ::
  "(string \<times> nat) list \<Rightarrow> dummies_row list \<Rightarrow> (nat option \<times> nat option) list" where
  "applymap_index word_index df =
     map (\<lambda>r. (entities_index_get word_index (lower (head r)),
                entities_index_get word_index (lower (tail r)))) df"

fun astype_int :: "(nat option \<times> nat option) list \<Rightarrow> error + (int \<times> int) list" where
  "astype_int [] = Inr []"
| "astype_int ((Some h, Some t) # rest) =
     (case astype_int rest of Inl e \<Rightarrow> Inl e | Inr xs \<Rightarrow> Inr ((int h, int t) # xs))"
| "astype_int (_ # rest) = Inl IntCastError"

definition X_of :: "(string \<times> nat) list \<Rightarrow> (nat \<times> dummies_row) list \<Rightarrow> error + (int \<times> int) list" where
  "X_of word_index data = astype_int (applymap_index word_index (map snd data))"

definition y_of :: "(nat \<times> dummies_row) list \<Rightarrow> nat list list" where
  "y_of data = map (\<lambda>r. relation_cols (snd r)) data"

section \<open>The classifier\<close>

text \<open>
  The weights are real matrices, as lists of rows. \<^verbatim>\<open>Embedding(input_dim, output_dim)\<close>
  builds a matrix with \<open>input_dim\<close> rows of \<open>output_dim\<close> entries from its initializer.
  The lookup yields the row of an index that has one; \<open>None\<close> says that the matrix has no
  such row, and what happens then is decided by the numerical backend, not by the notebook.
  \<^verbatim>\<open>GlobalAveragePooling1D\<close> is the mean over the looked-up rows (two per example),
  \<^verbatim>\<open>Dense\<close> multiplies by the kernel and adds the bias, and \<^verbatim>\<open>Activation('sigmoid')\<close>
  applies the logistic function to every output. The arithmetic is that of the real
  numbers; the rounding of the backend's single-precision numbers is not modelled.
\<close>

record weights =
  embeddings :: "real list list"
  kernel :: "real list list"
  bias :: "real list"

definition Embedding :: "nat \<Rightarrow> nat \<Rightarrow> (nat \<Rightarrow> nat \<Rightarrow> real) \<Rightarrow> real list list" where
  "Embedding input_dim output_dim initializer =
     map (\<lambda>i. map (\<lambda>j. initializer i j) [0 ..< output_dim]) [0 ..< input_dim]"

definition embedding_lookup :: "real list list \<Rightarrow> int \<Rightarrow> real list option" where
  "embedding_lookup E i = (if 0 \<le> i \<and> i < int (length E) then Some (E ! nat i) else None)"

fun vec_sum :: "real list list \<Rightarrow> real list" where
  "vec_sum [] = []"
| "vec_sum [v] = v"
| "vec_sum (v # vs) = map2 (+) v (vec_sum vs)"

definition GlobalAveragePooling1D :: "real list list \<Rightarrow> real list" where
  "GlobalAveragePooling1D steps = map (\<lambda>s. s / real (length steps)) (vec_sum steps)"

definition Dense :: "real list list \<Rightarrow> real list \<Rightarrow> real list \<Rightarrow> real list" where
  "Dense W b x =
     map (\<lambda>k. (\<Sum>j \<leftarrow> [0 ..< length x]. x ! j * (W ! j ! k)) + b ! k) [0 ..< length b]"

definition sigmoid :: "real \<Rightarrow> real" where
  "sigmoid x = 1 / (1 + exp (- x))"

definition Activation :: "(real \<Rightarrow> real) \<Rightarrow> real list \<Rightarrow> real list" where
  "Activation f x = map f x"

definition forward :: "weights \<Rightarrow> int \<times> int \<Rightarrow> real list option" where
  "forward w x =
     (case (embedding_lookup (embeddings w) (fst x), embedding_lookup (embeddings w) (snd x)) of
        (Some e_head, Some e_tail) \<Rightarrow>
          Some (Activation sigmoid
                  (Dense (kernel w) (bias w) (GlobalAveragePooling1D [e_head, e_tail])))
      | _ \<Rightarrow> None)"

section \<open>Visualisation\<close>

text \<open>
  \<^verbatim>\<open>embeddings[k, :]\<close> is numpy indexing: a negative \<open>k\<close> counts from the last row, and a
  \<open>k\<close> outside \<open>-N, ..., N - 1\<close> raises. The plotting loop reads, for every word of the
  vocabulary, the row at the word's index minus one.
\<close>

definition np_row :: "real list list \<Rightarrow> int \<Rightarrow> error + real list" where
  "np_row E k =
     (let n = int (length E); j = (if k < 0 then n + k else k)
      in if 0 \<le> j \<and> j < n then Inr (E ! nat j) else Inl IndexError)"

fun tsne_tokens :: "real list list \<Rightarrow> (string \<times> nat) list \<Rightarrow> error + (string \<times> real list) list" where
  "tsne_tokens E [] = Inr []"
| "tsne_tokens E ((word, idx) # rest) =
     (case np_row E (int idx - 1) of
        Inl e \<Rightarrow> Inl e
      | Inr token \<Rightarrow>
          (case tsne_tokens E rest of
             Inl e \<Rightarrow> Inl e
           | Inr xs \<Rightarrow> Inr ((word, token) # xs)))"

section \<open>Sample inputs\<close>

text \<open>
  A generator that returns the positions in falling order at every call, a frame of a
  single triple, one of two triples, and the twelve rows that six oversampling passes
  make of the latter, for the concrete runs below.
\<close>

definition reversing_rng :: "nat \<Rightarrow> nat \<Rightarrow> nat list" where
  "reversing_rng k n = rev [0 ..< n]"

definition one_triple :: "triple list" where
  "one_triple = [\<lparr>head = ''cha'', tail = ''art'', relation = Str ''ni''\<rparr>]"

definition two_triples :: "triple list" where
  "two_triples = [\<lparr>head = ''cha'', tail = ''art'', relation = Str ''ni''\<rparr>,
                  \<lparr>head = ''sop'', tail = ''ang'', relation = Str ''au''\<rparr>]"

definition twelve_rows :: "dummies_row list" where
  "twelve_rows = oversample reversing_rng 6 (get_dummies two_triples)"

text \<open>
  The frame of a file with the one line \<^verbatim>\<open>new york<TAB>in<TAB>paris\<close>, whose head has a
  space in it; the frame of a file with the lines \<^verbatim>\<open>a<TAB>NA<TAB>b\<close> and
  \<^verbatim>\<open>c<TAB>r<TAB>d\<close>, whose first relation is read as missing; a frame with a missing head
  and one with a head and a tail that are numbers; an encoded row whose head is in no
  vocabulary built from
  \<open>two_triples\<close>; and an embedding matrix of four rows.
\<close>

definition spaced_frame :: "loaded_row list" where
  "spaced_frame =
     [\<lparr>head_cell = Str ''new york'', relation_cell = Str ''in'', tail_cell = Str ''paris''\<rparr>]"

definition missing_relation_frame :: "loaded_row list" where
  "missing_relation_frame =
     [\<lparr>head_cell = Str ''a'', relation_cell = NaN, tail_cell = Str ''b''\<rparr>,
      \<lparr>head_cell = Str ''c'', relation_cell = Str ''r'', tail_cell = Str ''d''\<rparr>]"

definition missing_head_frame :: "loaded_row list" where
  "missing_head_frame = [\<lparr>head_cell = NaN, relation_cell = Str ''r'', tail_cell = Str ''abc''\<rparr>]"

definition numbered_frame :: "loaded_row list" where
  "numbered_frame = [\<lparr>head_cell = Num 1, relation_cell = Str ''r'', tail_cell = Num 2\<rparr>]"

definition stray_row :: dummies_row where
  "stray_row = \<lparr>head = ''Zed'', tail = ''art'', relation_cols = [0, 1]\<rparr>"

definition four_rows :: "real list list" where
  "four_rows = Embedding 4 2 (\<lambda>i j. real i)"

text \<open>The 24 entity names of the notebook's data, in descending order.\<close>

definition families_entities :: "string list" where
  "families_entities =
     [''vic'', ''tom'', ''sop'', ''rob'', ''pie'', ''pen'', ''mat'', ''mar'', ''maa'', ''luc'',
      ''jen'', ''jam'', ''gin'', ''fra'', ''emi'', ''col'', ''chs'', ''chr'', ''che'', ''cha'',
      ''art'', ''ang'', ''and'', ''alf'']"

section \<open>Properties of the random generator and of the rounding\<close>

lemma valid_rng_reversing: "valid_rng reversing_rng"
  by (simp add: valid_rng_def reversing_rng_def)

lemma valid_rng_length: "valid_rng g \<Longrightarrow> length (g k n) = n"
proof -
  assume "valid_rng g"
  then have "mset (g k n) = mset [0 ..< n]" by (simp add: valid_rng_def)
  then have "size (mset (g k n)) = size (mset [0 ..< n])" by simp
  then show ?thesis by simp
qed

lemma valid_rng_set: "valid_rng g \<Longrightarrow> set (g k n) = {0 ..< n}"
proof -
  assume "valid_rng g"
  then have "mset (g k n) = mset [0 ..< n]" by (simp add: valid_rng_def)
  then have "set_mset (mset (g k n)) = set_mset (mset [0 ..< n])" by simp
  then show ?thesis by simp
qed

lemma valid_rng_distinct: "valid_rng g \<Longrightarrow> distinct (g k n)"
proof -
  assume "valid_rng g"
  then have "mset (g k n) = mset [0 ..< n]" by (simp add: valid_rng_def)
  then show ?thesis by (metis distinct_upt mset_eq_imp_distinct_iff)
qed

lemma py_round_div_cases:
  assumes "0 < b"
  obtains q r where "a = b * q + r" and "r < b"
    and "py_round_div a b = q \<or> py_round_div a b = q + 1"
    and "py_round_div a b = q + 1 \<Longrightarrow> b \<le> 2 * r"
    and "py_round_div a b = q \<Longrightarrow> 2 * r \<le> b"
proof
  show "a = b * (a div b) + a mod b" by simp
  show "a mod b < b" using assms by simp
  show "py_round_div a b = a div b \<or> py_round_div a b = a div b + 1"
    by (simp add: py_round_div_def Let_def)
  show "py_round_div a b = a div b + 1 \<Longrightarrow> b \<le> 2 * (a mod b)"
    by (simp add: py_round_div_def Let_def split: if_splits)
  show "py_round_div a b = a div b \<Longrightarrow> 2 * (a mod b) \<le> b"
    by (simp add: py_round_div_def Let_def split: if_splits)
qed

lemma sample_n_le: "sample_n (3, 10) n \<le> n"
proof -
  obtain q r where "3 * n = 10 * q + r" "r < 10"
    "py_round_div (3 * n) 10 = q \<or> py_round_div (3 * n) 10 = q + 1"
    "py_round_div (3 * n) 10 = q + 1 \<Longrightarrow> 10 \<le> 2 * r"
    using py_round_div_cases [of 10 "3 * n"] by (metis zero_less_numeral)
  then show ?thesis
    unfolding sample_n_def fst_conv snd_conv by linarith
qed

lemma sample_n_pos: assumes "2 \<le> n" shows "1 \<le> sample_n (3, 10) n"
proof -
  obtain q r where "3 * n = 10 * q + r" "r < 10"
    "py_round_div (3 * n) 10 = q \<or> py_round_div (3 * n) 10 = q + 1"
    "py_round_div (3 * n) 10 = q \<Longrightarrow> 2 * r \<le> 10"
    using py_round_div_cases [of 10 "3 * n"] by (metis zero_less_numeral)
  then show ?thesis
    using assms unfolding sample_n_def fst_conv snd_conv by linarith
qed
lemma sample_n_all: "sample_n (1, 1) n = n"
  unfolding sample_n_def py_round_div_def Let_def by simp

lemma length_oversample_Suc:
  assumes "valid_rng g"
  shows "length (oversample g (Suc i) df) =
         length (oversample g i df) + sample_n (3, 10) (length (oversample g i df))"
  using assms sample_n_le [of "length (oversample g i df)"]
  by (simp add: Let_def append_ignore_index_def reset_index_drop_def df_sample_def valid_rng_length)

lemma oversample_mono: "valid_rng g \<Longrightarrow> length (oversample g i df) \<le> length (oversample g (Suc i) df)"
  using length_oversample_Suc [of g i df] by linarith

lemma oversample_ge: "valid_rng g \<Longrightarrow> length df \<le> length (oversample g i df)"
proof (induction i)
  case 0 then show ?case by simp
next
  case (Suc i)
  then show ?case using oversample_mono [of g i df] by linarith
qed

lemma oversample_strict:
  assumes "valid_rng g" and "2 \<le> length df"
  shows "length (oversample g i df) < length (oversample g (Suc i) df)"
proof -
  have "2 \<le> length (oversample g i df)"
    using assms oversample_ge [of g df i] by linarith
  then have "1 \<le> sample_n (3, 10) (length (oversample g i df))"
    by (rule sample_n_pos)
  then show ?thesis
    using length_oversample_Suc [OF assms(1), of i df] by linarith
qed



section \<open>Oversampling grows the frame\<close>

lemma oversample_step:
  assumes "valid_rng g"
  shows "\<exists>locs. distinct locs \<and> set locs \<subseteq> {0 ..< length (oversample g i df)}
           \<and> length locs = sample_n (3, 10) (length (oversample g i df))
           \<and> oversample g (Suc i) df = oversample g i df @ map (\<lambda>p. oversample g i df ! p) locs"
proof -
  let ?cur = "oversample g i df"
  let ?locs = "take (sample_n (3, 10) (length ?cur)) (g i (length ?cur))"
  have "distinct ?locs"
    using valid_rng_distinct [OF assms] by simp
  moreover have "set ?locs \<subseteq> {0 ..< length ?cur}"
    using valid_rng_set [OF assms, of i "length ?cur"] set_take_subset by fastforce
  moreover have "length ?locs = sample_n (3, 10) (length ?cur)"
    using valid_rng_length [OF assms, of i "length ?cur"] sample_n_le [of "length ?cur"] by simp
  moreover have "oversample g (Suc i) df = ?cur @ map (\<lambda>p. ?cur ! p) ?locs"
    by (simp add: Let_def append_ignore_index_def reset_index_drop_def df_sample_def comp_def)
  ultimately show ?thesis by blast
qed

text \<open>
  C7, as the code has it. Every pass appends a sample of the current frame, drawn
  without replacement and of \<open>round(0.3 * size)\<close> rows, so the size never falls. It rises
  at every pass when the frame starts with at least two rows; a frame of one row stays
  as it is, because \<open>round(0.3)\<close> is 0.
\<close>

theorem oversample_size:
  assumes "valid_rng g"
  shows "(\<exists>locs. distinct locs \<and> set locs \<subseteq> {0 ..< length (oversample g i df)}
            \<and> length locs = sample_n (3, 10) (length (oversample g i df))
            \<and> oversample g (Suc i) df = oversample g i df @ map (\<lambda>p. oversample g i df ! p) locs)
       \<and> length (oversample g (Suc i) df)
           = length (oversample g i df) + sample_n (3, 10) (length (oversample g i df))
       \<and> length (oversample g i df) \<le> length (oversample g (Suc i) df)
       \<and> (2 \<le> length df \<longrightarrow> length (oversample g i df) < length (oversample g (Suc i) df))"
  using oversample_step [OF assms] length_oversample_Suc [OF assms] oversample_mono [OF assms]
    oversample_strict [OF assms]
  by blast

theorem oversample_size_witness:
  "valid_rng reversing_rng \<and> 2 \<le> length (get_dummies two_triples)
     \<and> length (oversample reversing_rng 3 (get_dummies two_triples)) = 5
     \<and> length (oversample reversing_rng (Suc 3) (get_dummies two_triples)) = 7
     \<and> length (oversample reversing_rng 3 (get_dummies two_triples))
         < length (oversample reversing_rng (Suc 3) (get_dummies two_triples))"
proof -
  have len: "length (get_dummies two_triples) = 2"
    by (simp add: get_dummies_def two_triples_def)
  have l3: "length (oversample reversing_rng 3 (get_dummies two_triples)) = 5"
    by code_simp
  have s5: "sample_n (3, 10) 5 = 2"
    by (simp add: sample_n_def py_round_div_def)
  show ?thesis
    using oversample_size [OF valid_rng_reversing, of 3 "get_dummies two_triples"]
    by (simp add: len l3 s5 valid_rng_reversing)
qed

text \<open>
  C7, as the claim has it, fails on a file of one triple: the frame has one row before
  and after the first pass, and still one row after all twenty.
\<close>

theorem oversample_one_row_counterexample:
  "valid_rng reversing_rng
     \<and> \<not> length (oversample reversing_rng 0 (get_dummies one_triple))
           < length (oversample reversing_rng (Suc 0) (get_dummies one_triple))
     \<and> length (augment reversing_rng (get_dummies one_triple)) = 1"
proof -
  have "length (oversample reversing_rng (Suc 0) (get_dummies one_triple)) = 1"
    by code_simp
  moreover have "length (augment reversing_rng (get_dummies one_triple)) = 1"
    unfolding augment_def by code_simp
  ultimately show ?thesis
    by (simp add: valid_rng_reversing get_dummies_def one_triple_def)
qed

text \<open>
  On the 112 rows of the notebook's data the sizes run to the 21367 rows that the
  notebook prints.
\<close>

lemma length_oversample_size_after:
  "valid_rng g \<Longrightarrow> length (oversample g i df) = size_after i (length df)"
proof (induction i)
  case 0
  then show ?case by simp
next
  case (Suc i)
  then show ?case
    using length_oversample_Suc [of g i df] by (simp add: Let_def)
qed

lemma size_after_step:
  "size_after i n = m \<Longrightarrow> j = Suc i \<Longrightarrow> size_after j n = m + sample_n (3, 10) m"
  by (simp add: Let_def)

lemma notebook_sizes:
  assumes "valid_rng g" and "length df = 112"
  shows "length (augment g df) = 21367"
proof -
  have s0: "size_after 0 112 = 112" by simp
  have s1: "size_after 1 112 = 146"
    using size_after_step [OF s0, of 1] by (simp add: sample_n_def py_round_div_def)
  have s2: "size_after 2 112 = 190"
    using size_after_step [OF s1, of 2] by (simp add: sample_n_def py_round_div_def)
  have s3: "size_after 3 112 = 247"
    using size_after_step [OF s2, of 3] by (simp add: sample_n_def py_round_div_def)
  have s4: "size_after 4 112 = 321"
    using size_after_step [OF s3, of 4] by (simp add: sample_n_def py_round_div_def)
  have s5: "size_after 5 112 = 417"
    using size_after_step [OF s4, of 5] by (simp add: sample_n_def py_round_div_def)
  have s6: "size_after 6 112 = 542"
    using size_after_step [OF s5, of 6] by (simp add: sample_n_def py_round_div_def)
  have s7: "size_after 7 112 = 705"
    using size_after_step [OF s6, of 7] by (simp add: sample_n_def py_round_div_def)
  have s8: "size_after 8 112 = 917"
    using size_after_step [OF s7, of 8] by (simp add: sample_n_def py_round_div_def)
  have s9: "size_after 9 112 = 1192"
    using size_after_step [OF s8, of 9] by (simp add: sample_n_def py_round_div_def)
  have s10: "size_after 10 112 = 1550"
    using size_after_step [OF s9, of 10] by (simp add: sample_n_def py_round_div_def)
  have s11: "size_after 11 112 = 2015"
    using size_after_step [OF s10, of 11] by (simp add: sample_n_def py_round_div_def)
  have s12: "size_after 12 112 = 2619"
    using size_after_step [OF s11, of 12] by (simp add: sample_n_def py_round_div_def)
  have s13: "size_after 13 112 = 3405"
    using size_after_step [OF s12, of 13] by (simp add: sample_n_def py_round_div_def)
  have s14: "size_after 14 112 = 4427"
    using size_after_step [OF s13, of 14] by (simp add: sample_n_def py_round_div_def)
  have s15: "size_after 15 112 = 5755"
    using size_after_step [OF s14, of 15] by (simp add: sample_n_def py_round_div_def)
  have s16: "size_after 16 112 = 7481"
    using size_after_step [OF s15, of 16] by (simp add: sample_n_def py_round_div_def)
  have s17: "size_after 17 112 = 9725"
    using size_after_step [OF s16, of 17] by (simp add: sample_n_def py_round_div_def)
  have s18: "size_after 18 112 = 12643"
    using size_after_step [OF s17, of 18] by (simp add: sample_n_def py_round_div_def)
  have s19: "size_after 19 112 = 16436"
    using size_after_step [OF s18, of 19] by (simp add: sample_n_def py_round_div_def)
  have s20: "size_after 20 112 = 21367"
    using size_after_step [OF s19, of 20] by (simp add: sample_n_def py_round_div_def)
  show ?thesis
    using assms s20 by (simp add: augment_def length_oversample_size_after)
qed

section \<open>The split is a partition\<close>

lemma n_test_of_le: "n_test_of n \<le> n"
  unfolding n_test_of_def by linarith

lemma n_test_of_ceiling: "n \<le> 10 * n_test_of n \<and> 10 * n_test_of n < n + 10"
  unfolding n_test_of_def by linarith

lemma mset_map_nth_perm:
  assumes "mset permutation = mset [0 ..< length arr]"
  shows "mset (map (\<lambda>i. f i (arr ! i)) permutation) = mset (map (\<lambda>i. f i (arr ! i)) [0 ..< length arr])"
proof -
  have "mset (map (\<lambda>i. f i (arr ! i)) permutation) = image_mset (\<lambda>i. f i (arr ! i)) (mset permutation)"
    by simp
  also have "\<dots> = image_mset (\<lambda>i. f i (arr ! i)) (mset [0 ..< length arr])"
    using assms by simp
  finally show ?thesis by simp
qed

lemma train_test_split_parts:
  assumes "length permutation = length arr"
  shows "train_test_split permutation arr =
           (map (\<lambda>i. arr ! i) (drop (n_test_of (length arr)) permutation),
            map (\<lambda>i. arr ! i) (take (n_test_of (length arr)) permutation))"
  using assms by (simp add: train_test_split_def Let_def)

lemma train_test_split_mset:
  assumes "mset permutation = mset [0 ..< length arr]"
    and "train_test_split permutation arr = (train, test)"
  shows "mset train + mset test = mset arr"
    and "length test = n_test_of (length arr)"
    and "length train = length arr - n_test_of (length arr)"
proof -
  have len: "length permutation = length arr"
    using assms(1) by (metis length_upt mset_eq_length minus_nat.diff_0)
  have tr: "train = map (\<lambda>i. arr ! i) (drop (n_test_of (length arr)) permutation)"
    and te: "test = map (\<lambda>i. arr ! i) (take (n_test_of (length arr)) permutation)"
    using assms(2) train_test_split_parts [OF len] by simp_all
  have "mset (drop (n_test_of (length arr)) permutation) + mset (take (n_test_of (length arr)) permutation)
          = mset permutation"
    by (metis append_take_drop_id mset_append union_commute)
  then have "image_mset (\<lambda>i. arr ! i) (mset (drop (n_test_of (length arr)) permutation)
               + mset (take (n_test_of (length arr)) permutation))
          = image_mset (\<lambda>i. arr ! i) (mset permutation)"
    by simp
  then have "mset train + mset test = mset (map (\<lambda>i. arr ! i) permutation)"
    unfolding tr te by simp
  also have "\<dots> = mset (map (\<lambda>i. arr ! i) [0 ..< length arr])"
    using mset_map_nth_perm [OF assms(1), of "\<lambda>i x. x"] by simp
  also have "\<dots> = mset arr" by (simp add: map_nth)
  finally show "mset train + mset test = mset arr" .
  show "length test = n_test_of (length arr)"
    unfolding te using len n_test_of_le [of "length arr"] by simp
  show "length train = length arr - n_test_of (length arr)"
    unfolding tr using len by simp
qed

lemma shuffle_mset:
  assumes "mset permutation = mset [0 ..< length df]"
  shows "mset (map fst (df_sample (1, 1) permutation df)) = mset [0 ..< length df]"
    and "length (df_sample (1, 1) permutation df) = length df"
    and "\<forall>p \<in> set (df_sample (1, 1) permutation df). snd p = df ! fst p \<and> fst p < length df"
proof -
  have len: "length permutation = length df"
    using assms by (metis length_upt mset_eq_length minus_nat.diff_0)
  have eq: "df_sample (1, 1) permutation df = map (\<lambda>i. (i, df ! i)) permutation"
    unfolding df_sample_def sample_n_all using len by simp
  show "mset (map fst (df_sample (1, 1) permutation df)) = mset [0 ..< length df]"
    unfolding eq using assms by (simp add: comp_def)
  show "length (df_sample (1, 1) permutation df) = length df"
    unfolding eq using len by simp
  have "set permutation = {0 ..< length df}"
    using assms by (metis mset_eq_setD set_upt)
  then show "\<forall>p \<in> set (df_sample (1, 1) permutation df). snd p = df ! fst p \<and> fst p < length df"
    unfolding eq by auto
qed

lemma split_data_mset:
  assumes "valid_rng g"
    and "split_data g df = (training_data, validation_data, test_data)"
  shows "mset (map fst training_data) + mset (map fst validation_data) + mset (map fst test_data)
           = mset [0 ..< length df]"
    and "length test_data = n_test_of (length df)"
    and "length validation_data = n_test_of (length df - n_test_of (length df))"
    and "length training_data + length validation_data + length test_data = length df"
    and "\<forall>p \<in> set (training_data @ validation_data @ test_data). snd p = df ! fst p \<and> fst p < length df"
proof -
  let ?sh = "df_sample (1, 1) (g 20 (length df)) df"
  obtain tmp where s1: "train_test_split (g 21 (length ?sh)) ?sh = (tmp, test_data)"
    and s2: "train_test_split (g 22 (length tmp)) tmp = (training_data, validation_data)"
    using assms(2) by (auto simp: split_data_def Let_def split: prod.splits)
  have v: "\<And>k n. mset (g k n) = mset [0 ..< n]"
    using assms(1) by (simp add: valid_rng_def)
  note a = train_test_split_mset [OF v s1]
  note b = train_test_split_mset [OF v s2]
  note c = shuffle_mset [OF v, of 20 df]
  have all: "mset training_data + mset validation_data + mset test_data = mset ?sh"
    using a(1) b(1) by simp
  then have "image_mset fst (mset training_data + mset validation_data + mset test_data)
               = image_mset fst (mset ?sh)" by simp
  then show "mset (map fst training_data) + mset (map fst validation_data) + mset (map fst test_data)
           = mset [0 ..< length df]"
    using c(1) by simp
  show "length test_data = n_test_of (length df)"
    using a(2) c(2) by simp
  have lt: "length tmp = length df - n_test_of (length df)"
    using a(3) c(2) by simp
  show "length validation_data = n_test_of (length df - n_test_of (length df))"
    using b(2) lt by simp
  show "length training_data + length validation_data + length test_data = length df"
    using a(2,3) b(2,3) c(2) n_test_of_le [of "length df"] n_test_of_le [of "length tmp"] by simp
  have "set_mset (mset training_data + mset validation_data + mset test_data) = set_mset (mset ?sh)"
    using all by simp
  then have "set (training_data @ validation_data @ test_data) = set ?sh"
    by (simp add: Un_assoc)
  then show "\<forall>p \<in> set (training_data @ validation_data @ test_data). snd p = df ! fst p \<and> fst p < length df"
    using c(3) by simp
qed

text \<open>
  C8. Whatever the generator draws, the index labels of the training, validation and
  test frames are pairwise disjoint and together are the labels \<open>0, ..., n - 1\<close> of the
  frame that was split, every row is the row of that frame at its label, and the sizes
  add up to \<open>n\<close>. The test frame has \<open>ceil(n / 10)\<close> rows and the validation frame
  \<open>ceil((n - n_test) / 10)\<close>: a tenth of the whole and a tenth of the remainder, rounded up.
\<close>

theorem split_data_partition:
  assumes "valid_rng g"
    and "split_data g df = (training_data, validation_data, test_data)"
  shows "set (map fst training_data) \<inter> set (map fst validation_data) = {}
       \<and> set (map fst training_data) \<inter> set (map fst test_data) = {}
       \<and> set (map fst validation_data) \<inter> set (map fst test_data) = {}
       \<and> distinct (map fst training_data) \<and> distinct (map fst validation_data)
       \<and> distinct (map fst test_data)
       \<and> set (map fst training_data) \<union> set (map fst validation_data) \<union> set (map fst test_data)
           = {0 ..< length df}
       \<and> (\<forall>p \<in> set (training_data @ validation_data @ test_data). snd p = df ! fst p)
       \<and> length training_data + length validation_data + length test_data = length df
       \<and> length test_data = n_test_of (length df)
       \<and> length df \<le> 10 * length test_data \<and> 10 * length test_data < length df + 10
       \<and> length validation_data = n_test_of (length df - length test_data)
       \<and> length df - length test_data \<le> 10 * length validation_data
       \<and> 10 * length validation_data < length df - length test_data + 10"
proof -
  note m = split_data_mset [OF assms]
  have "mset (map fst (training_data @ validation_data @ test_data)) = mset [0 ..< length df]"
    using m(1) by (simp add: add.assoc)
  then have d: "distinct (map fst (training_data @ validation_data @ test_data))"
    and s: "set (map fst (training_data @ validation_data @ test_data)) = {0 ..< length df}"
    by (metis distinct_upt mset_eq_imp_distinct_iff, metis mset_eq_setD set_upt)
  have disj: "set (map fst training_data) \<inter> set (map fst validation_data) = {}"
    "set (map fst training_data) \<inter> set (map fst test_data) = {}"
    "set (map fst validation_data) \<inter> set (map fst test_data) = {}"
    "distinct (map fst training_data)" "distinct (map fst validation_data)"
    "distinct (map fst test_data)"
    using d by auto
  have un: "set (map fst training_data) \<union> set (map fst validation_data) \<union> set (map fst test_data)
           = {0 ..< length df}"
    using s by (simp add: Un_assoc)
  have rows: "\<forall>p \<in> set (training_data @ validation_data @ test_data). snd p = df ! fst p"
    using m(5) by blast
  have va: "length validation_data = n_test_of (length df - length test_data)"
    using m(2,3) by simp
  note c1 = n_test_of_ceiling [of "length df"]
  note c2 = n_test_of_ceiling [of "length df - length test_data"]
  show ?thesis
    using disj un rows m(4) m(2) va c1 c2 by (simp only: simp_thms)
qed

theorem split_data_partition_witness:
  "valid_rng reversing_rng
     \<and> map fst (fst (split_data reversing_rng twelve_rows)) = [10, 9, 8, 7, 6, 5, 4, 3, 2]
     \<and> map fst (fst (snd (split_data reversing_rng twelve_rows))) = [11]
     \<and> map fst (snd (snd (split_data reversing_rng twelve_rows))) = [0, 1]
     \<and> length twelve_rows = 12
     \<and> length (fst (split_data reversing_rng twelve_rows))
         + length (fst (snd (split_data reversing_rng twelve_rows)))
         + length (snd (snd (split_data reversing_rng twelve_rows))) = length twelve_rows
     \<and> set (map fst (fst (split_data reversing_rng twelve_rows)))
         \<inter> set (map fst (snd (snd (split_data reversing_rng twelve_rows)))) = {}"
proof -
  have e1: "map fst (fst (split_data reversing_rng twelve_rows)) = [10, 9, 8, 7, 6, 5, 4, 3, 2]"
    unfolding twelve_rows_def by code_simp
  have e2: "map fst (fst (snd (split_data reversing_rng twelve_rows))) = [11]"
    unfolding twelve_rows_def by code_simp
  have e3: "map fst (snd (snd (split_data reversing_rng twelve_rows))) = [0, 1]"
    unfolding twelve_rows_def by code_simp
  have e4: "length twelve_rows = 12"
    unfolding twelve_rows_def by code_simp
  have "split_data reversing_rng twelve_rows
          = (fst (split_data reversing_rng twelve_rows),
             fst (snd (split_data reversing_rng twelve_rows)),
             snd (snd (split_data reversing_rng twelve_rows)))"
    by simp
  from split_data_partition [OF valid_rng_reversing this]
  have c: "length (fst (split_data reversing_rng twelve_rows))
         + length (fst (snd (split_data reversing_rng twelve_rows)))
         + length (snd (snd (split_data reversing_rng twelve_rows))) = length twelve_rows"
    "set (map fst (fst (split_data reversing_rng twelve_rows)))
         \<inter> set (map fst (snd (snd (split_data reversing_rng twelve_rows)))) = {}"
    by blast+
  show ?thesis
    using e1 e2 e3 e4 valid_rng_reversing c by (intro conjI)
qed

section \<open>One-hot relation columns sum to one\<close>

lemma indicator_sum:
  "distinct cs \<Longrightarrow>
     sum_list (map (\<lambda>x. if c = x then (1::nat) else 0) cs) = (if c \<in> set cs then 1 else 0)"
  by (induction cs) auto

lemma indicator_ones:
  "distinct cs \<Longrightarrow>
     length (filter (\<lambda>v. v = 1) (map (\<lambda>x. if c = x then (1::nat) else 0) cs))
       = (if c \<in> set cs then 1 else 0)"
  by (induction cs) auto

lemma indicator_binary:
  "set (map (\<lambda>x. if c = x then (1::nat) else 0) cs) \<subseteq> {0, 1}"
  by auto

lemma indicator_none:
  "c \<notin> set cs \<Longrightarrow> sum_list (map (\<lambda>x. if c = x then (1::nat) else 0) cs) = 0"
  by (induction cs) auto

lemma set_num_values: "set (num_values cs) = {x. Num x \<in> set cs}"
  by (induction cs rule: num_values.induct) auto

lemma set_str_values: "set (str_values cs) = {s. Str s \<in> set cs}"
  by (induction cs rule: str_values.induct) auto

lemma relation_categories_props:
  "distinct (relation_categories families)"
  "set (relation_categories families) = {c \<in> relation ` set families. c \<noteq> NaN}"
proof -
  show "distinct (relation_categories families)"
    by (auto simp: relation_categories_def distinct_map inj_on_def)
  show "set (relation_categories families) = {c \<in> relation ` set families. c \<noteq> NaN}"
  proof (intro equalityI subsetI)
    fix c assume "c \<in> set (relation_categories families)"
    then show "c \<in> {c \<in> relation ` set families. c \<noteq> NaN}"
      by (auto simp: relation_categories_def set_num_values set_str_values)
  next
    fix c assume c: "c \<in> {c \<in> relation ` set families. c \<noteq> NaN}"
    then show "c \<in> set (relation_categories families)"
      by (cases c) (auto simp: relation_categories_def set_num_values set_str_values)
  qed
qed

lemma relation_cols_of_triple:
  assumes "t \<in> set families"
    and "cols = map (\<lambda>c. if relation t = c then (1::nat) else 0) (relation_categories families)"
  shows "set cols \<subseteq> {0, 1}"
    and "length cols = length (relation_categories families)"
    and "relation t \<noteq> NaN \<Longrightarrow> sum_list cols = 1"
    and "relation t \<noteq> NaN \<Longrightarrow> length (filter (\<lambda>v. v = 1) cols) = 1"
    and "relation t = NaN \<Longrightarrow> sum_list cols = 0"
proof -
  show "set cols \<subseteq> {0, 1}"
    unfolding assms(2) by (rule indicator_binary)
  show "length cols = length (relation_categories families)"
    unfolding assms(2) by simp
  have m: "relation t \<noteq> NaN \<Longrightarrow> relation t \<in> set (relation_categories families)"
    using assms(1) by (simp add: relation_categories_props)
  show "relation t \<noteq> NaN \<Longrightarrow> sum_list cols = 1"
    unfolding assms(2)
    using m indicator_sum [OF relation_categories_props(1), of "relation t" families] by simp
  show "relation t \<noteq> NaN \<Longrightarrow> length (filter (\<lambda>v. v = 1) cols) = 1"
    unfolding assms(2)
    using m indicator_ones [OF relation_categories_props(1), of "relation t" families] by simp
  have "NaN \<notin> set (relation_categories families)"
    by (simp add: relation_categories_props)
  then show "relation t = NaN \<Longrightarrow> sum_list cols = 0"
    unfolding assms(2) using indicator_none [of NaN "relation_categories families"] by simp
qed

text \<open>A column of numbers is ordered as numbers: 9 comes before 10.\<close>

lemma relation_categories_numbers:
  "relation_categories
     [\<lparr>head = ''a'', tail = ''b'', relation = Num 10\<rparr>,
      \<lparr>head = ''c'', tail = ''d'', relation = Num 9\<rparr>] = [Num 9, Num 10]"
  by (simp add: relation_categories_def)

lemma get_dummies_nth:
  "i < length families \<Longrightarrow>
     relation_cols (get_dummies families ! i)
       = map (\<lambda>c. if relation (families ! i) = c then 1 else 0) (relation_categories families)"
  by (simp add: get_dummies_def)

lemma get_dummies_one_hot:
  assumes "\<forall>t \<in> set families. relation t \<noteq> NaN"
    and "r \<in> set (get_dummies families)"
  shows "sum_list (relation_cols r) = 1"
    and "length (filter (\<lambda>v. v = 1) (relation_cols r)) = 1"
    and "set (relation_cols r) \<subseteq> {0, 1}"
    and "length (relation_cols r) = length (relation_categories families)"
proof -
  obtain t where t: "t \<in> set families"
    and r: "relation_cols r = map (\<lambda>c. if relation t = c then 1 else 0) (relation_categories families)"
    using assms(2) by (auto simp: get_dummies_def)
  have n: "relation t \<noteq> NaN" using assms(1) t by blast
  show "sum_list (relation_cols r) = 1"
    "length (filter (\<lambda>v. v = 1) (relation_cols r)) = 1"
    "set (relation_cols r) \<subseteq> {0, 1}"
    "length (relation_cols r) = length (relation_categories families)"
    using relation_cols_of_triple [OF t r] n by blast+
qed

lemma set_oversample: "valid_rng g \<Longrightarrow> set (oversample g i df) = set df"
proof (induction i)
  case 0
  then show ?case by simp
next
  case (Suc i)
  obtain locs where l: "set locs \<subseteq> {0 ..< length (oversample g i df)}"
    and e: "oversample g (Suc i) df = oversample g i df @ map (\<lambda>p. oversample g i df ! p) locs"
    using oversample_step [OF Suc.prems, of i df] by blast
  have "set (map (\<lambda>p. oversample g i df ! p) locs) \<subseteq> set (oversample g i df)"
    using l by auto
  then show ?case
    unfolding e using Suc by auto
qed

lemma prepare_rows:
  assumes "valid_rng g"
    and "prepare g families = (training_data, validation_data, test_data)"
  shows "snd ` set (training_data @ validation_data @ test_data) = set (get_dummies families)"
proof -
  let ?df = "augment g (get_dummies families)"
  have sp: "split_data g ?df = (training_data, validation_data, test_data)"
    using assms(2) by (simp add: prepare_def)
  note m = split_data_mset [OF assms(1) sp]
  have sub: "snd ` set (training_data @ validation_data @ test_data) \<subseteq> set ?df"
    using m(5) by (metis (no_types, lifting) image_subsetI nth_mem)
  have "set (map fst (training_data @ validation_data @ test_data)) = {0 ..< length ?df}"
  proof -
    have "mset (map fst (training_data @ validation_data @ test_data)) = mset [0 ..< length ?df]"
      using m(1) by (simp add: add.assoc)
    then show ?thesis by (metis mset_eq_setD set_upt)
  qed
  then have all: "\<And>i. i < length ?df \<Longrightarrow> \<exists>p \<in> set (training_data @ validation_data @ test_data). fst p = i"
    by (metis (no_types, lifting) atLeastLessThan_iff imageE le0 list.set_map)
  have "set ?df \<subseteq> snd ` set (training_data @ validation_data @ test_data)"
  proof
    fix x assume "x \<in> set ?df"
    then obtain i where i: "i < length ?df" "x = ?df ! i"
      by (metis in_set_conv_nth)
    then obtain p where p: "p \<in> set (training_data @ validation_data @ test_data)" "fst p = i"
      using all by blast
    then have "snd p = x" using m(5) i by blast
    then show "x \<in> snd ` set (training_data @ validation_data @ test_data)"
      using p(1) by blast
  qed
  then show ?thesis
    using sub set_oversample [OF assms(1), of 20 "get_dummies families"]
    by (simp add: augment_def)
qed

text \<open>
  C10, as the code has it. Every row has one indicator column per relation of the frame,
  each 0 or 1. A row whose relation is not missing has exactly one column equal to 1, so
  its relation columns sum to 1; a row whose relation is the missing value has 0 in all
  of them. When no relation of the frame is missing, every row of the encoded frame, of
  the oversampled frame and of the three splits sums to 1, and so do the label matrices
  handed to the training.
\<close>

theorem relation_cols_one_hot:
  assumes "valid_rng g"
    and "prepare g families = (training_data, validation_data, test_data)"
  shows "(\<forall>i < length families.
            set (relation_cols (get_dummies families ! i)) \<subseteq> {0, 1}
          \<and> length (relation_cols (get_dummies families ! i)) = length (relation_categories families)
          \<and> (relation (families ! i) \<noteq> NaN \<longrightarrow>
                sum_list (relation_cols (get_dummies families ! i)) = 1
              \<and> length (filter (\<lambda>v. v = 1) (relation_cols (get_dummies families ! i))) = 1)
          \<and> (relation (families ! i) = NaN \<longrightarrow>
                sum_list (relation_cols (get_dummies families ! i)) = 0))
       \<and> ((\<forall>t \<in> set families. relation t \<noteq> NaN) \<longrightarrow>
            (\<forall>r \<in> set (get_dummies families) \<union> set (augment g (get_dummies families))
                  \<union> snd ` set (training_data @ validation_data @ test_data).
                sum_list (relation_cols r) = 1
              \<and> length (filter (\<lambda>v. v = 1) (relation_cols r)) = 1
              \<and> set (relation_cols r) \<subseteq> {0, 1}
              \<and> length (relation_cols r) = length (relation_categories families))
          \<and> (\<forall>y \<in> set (y_of training_data) \<union> set (y_of validation_data). sum_list y = 1))"
proof (intro conjI allI impI ballI)
  fix i assume i: "i < length families"
  then have t: "families ! i \<in> set families" by simp
  note c = relation_cols_of_triple [OF t get_dummies_nth [OF i]]
  show "set (relation_cols (get_dummies families ! i)) \<subseteq> {0, 1}"
    "length (relation_cols (get_dummies families ! i)) = length (relation_categories families)"
    using c(1,2) by blast+
  {
    assume "relation (families ! i) \<noteq> NaN"
    then show "sum_list (relation_cols (get_dummies families ! i)) = 1"
      "length (filter (\<lambda>v. v = 1) (relation_cols (get_dummies families ! i))) = 1"
      using c(3,4) by blast+
  }
  {
    assume "relation (families ! i) = NaN"
    then show "sum_list (relation_cols (get_dummies families ! i)) = 0"
      using c(5) by blast
  }
next
  fix r
  assume all: "\<forall>t \<in> set families. relation t \<noteq> NaN"
    and "r \<in> set (get_dummies families) \<union> set (augment g (get_dummies families))
              \<union> snd ` set (training_data @ validation_data @ test_data)"
  moreover have "set (augment g (get_dummies families)) = set (get_dummies families)"
    using set_oversample [OF assms(1)] by (simp add: augment_def)
  ultimately have r: "r \<in> set (get_dummies families)"
    using prepare_rows [OF assms] by blast
  show "sum_list (relation_cols r) = 1"
    "length (filter (\<lambda>v. v = 1) (relation_cols r)) = 1"
    "set (relation_cols r) \<subseteq> {0, 1}"
    "length (relation_cols r) = length (relation_categories families)"
    using get_dummies_one_hot [OF all r] by blast+
next
  fix y
  assume all: "\<forall>t \<in> set families. relation t \<noteq> NaN"
    and "y \<in> set (y_of training_data) \<union> set (y_of validation_data)"
  then obtain r where "r \<in> set (get_dummies families)" "y = relation_cols r"
    using prepare_rows [OF assms] by (auto simp: y_of_def)
  then show "sum_list y = 1"
    using get_dummies_one_hot(1) [OF all] by blast
qed

theorem relation_cols_one_hot_witness:
  "valid_rng reversing_rng
     \<and> map relation two_triples = [Str ''ni'', Str ''au'']
     \<and> get_dummies two_triples
         = [\<lparr>head = ''cha'', tail = ''art'', relation_cols = [0, 1]\<rparr>,
            \<lparr>head = ''sop'', tail = ''ang'', relation_cols = [1, 0]\<rparr>]
     \<and> map (sum_list \<circ> relation_cols) (get_dummies two_triples) = [1, 1]
     \<and> sum_list ` set (y_of (fst (prepare reversing_rng two_triples))) \<subseteq> {1}"
proof -
  have m: "map relation two_triples = [Str ''ni'', Str ''au'']"
    by (simp add: two_triples_def)
  have e: "get_dummies two_triples
         = [\<lparr>head = ''cha'', tail = ''art'', relation_cols = [0, 1]\<rparr>,
            \<lparr>head = ''sop'', tail = ''ang'', relation_cols = [1, 0]\<rparr>]"
    by code_simp
  have n: "\<forall>t \<in> set two_triples. relation t \<noteq> NaN"
    by (simp add: two_triples_def)
  have "prepare reversing_rng two_triples
          = (fst (prepare reversing_rng two_triples),
             fst (snd (prepare reversing_rng two_triples)),
             snd (snd (prepare reversing_rng two_triples)))"
    by simp
  from relation_cols_one_hot [OF valid_rng_reversing this]
  have "\<forall>r \<in> set (get_dummies two_triples). sum_list (relation_cols r) = 1"
    "\<forall>y \<in> set (y_of (fst (prepare reversing_rng two_triples))). sum_list y = 1"
    using n by blast+
  then have "map (sum_list \<circ> relation_cols) (get_dummies two_triples) = [1, 1]"
    "sum_list ` set (y_of (fst (prepare reversing_rng two_triples))) \<subseteq> {1}"
    unfolding e by auto
  then show ?thesis
    using m e valid_rng_reversing by (intro conjI)
qed

text \<open>
  C10, as the claim has it, fails on a frame with a missing relation: the vocabulary is
  built, the run goes on, and the first encoded row has a single relation column, which
  is 0.
\<close>

theorem missing_relation_counterexample:
  "load_entities_index missing_relation_frame
       = Inr [(''a'', 1), (''b'', 2), (''c'', 3), (''d'', 4)]
     \<and> get_dummies (str_triples missing_relation_frame)
         = [\<lparr>head = ''a'', tail = ''b'', relation_cols = [0]\<rparr>,
            \<lparr>head = ''c'', tail = ''d'', relation_cols = [1]\<rparr>]
     \<and> sum_list (relation_cols (hd (get_dummies (str_triples missing_relation_frame)))) = 0"
proof -
  have v: "load_entities_index missing_relation_frame
       = Inr [(''a'', 1), (''b'', 2), (''c'', 3), (''d'', 4)]"
    by code_simp
  have e: "get_dummies (str_triples missing_relation_frame)
         = [\<lparr>head = ''a'', tail = ''b'', relation_cols = [0]\<rparr>,
            \<lparr>head = ''c'', tail = ''d'', relation_cols = [1]\<rparr>]"
    by code_simp
  have "sum_list (relation_cols (hd (get_dummies (str_triples missing_relation_frame)))) = 0"
    unfolding e by simp
  then show ?thesis using v e by (intro conjI)
qed

section \<open>The vocabulary\<close>

lemma lower_char_space: "lower_char c = CHR '' '' \<Longrightarrow> c = CHR '' ''"
proof (rule ccontr)
  assume a: "lower_char c = CHR '' ''" and n: "c \<noteq> CHR '' ''"
  then have r: "65 \<le> (of_char c :: nat)" "(of_char c :: nat) \<le> 90"
    and e: "char_of (of_char c + (32 :: nat)) = CHR '' ''"
    by (auto simp: lower_char_def split: if_splits)
  from e have "(of_char (char_of (of_char c + (32 :: nat)) :: char) :: nat) = of_char (CHR '' '')"
    by simp
  then have "(of_char c + 32) mod 256 = (32 :: nat)"
    by simp
  moreover have "(of_char c + 32) mod 256 = (of_char c + 32 :: nat)"
    using r by (intro mod_less) linarith
  ultimately show False using r by linarith
qed

lemma lower_no_space: "CHR '' '' \<notin> set text \<Longrightarrow> CHR '' '' \<notin> set (lower text)"
proof
  assume "CHR '' '' \<notin> set text" and "CHR '' '' \<in> set (lower text)"
  then obtain c where "c \<in> set text" "lower_char c = CHR '' ''"
    by (auto simp: lower_def)
  then show False
    using lower_char_space \<open>CHR '' '' \<notin> set text\<close> by blast
qed

lemma split_str_no_sep: "sep \<notin> set s \<Longrightarrow> split_str s sep = [s]"
  by (induction s) auto

lemma text_to_word_sequence_plain:
  assumes "text \<noteq> []" and "CHR '' '' \<notin> set text"
  shows "text_to_word_sequence text = [lower text]"
proof -
  have "split_str (lower text) (CHR '' '') = [lower text]"
    using lower_no_space [OF assms(2)] by (rule split_str_no_sep)
  moreover have "lower text \<noteq> []" using assms(1) by (simp add: lower_def)
  ultimately show ?thesis by (simp add: text_to_word_sequence_def)
qed

lemma count_word_keys:
  "map fst (count_word kcs w) = (if w \<in> fst ` set kcs then map fst kcs else map fst kcs @ [w])"
  by (induction kcs w rule: count_word.induct) auto

lemma count_word_distinct:
  "distinct (map fst kcs) \<Longrightarrow> distinct (map fst (count_word kcs w))"
  by (simp add: count_word_keys)

lemma count_word_set: "fst ` set (count_word kcs w) = insert w (fst ` set kcs)"
proof -
  have "set (map fst (count_word kcs w)) = insert w (set (map fst kcs))"
    unfolding count_word_keys by auto
  then show ?thesis by simp
qed

lemma foldl_count_word:
  "distinct (map fst acc) \<Longrightarrow>
     distinct (map fst (foldl count_word acc ws))
     \<and> fst ` set (foldl count_word acc ws) = fst ` set acc \<union> set ws"
proof (induction ws arbitrary: acc)
  case Nil
  then show ?case by simp
next
  case (Cons w ws)
  from Cons.IH [OF count_word_distinct [OF Cons.prems, of w]]
  show ?case by (simp add: count_word_set)
qed

lemma word_counts_keys:
  "distinct (map fst (word_counts texts))"
  "fst ` set (word_counts texts) = set (concat (map text_to_word_sequence texts))"
  using foldl_count_word [of "[]" "concat (map text_to_word_sequence texts)"]
  by (simp_all add: word_counts_def)

lemma sorted_voc_props:
  "distinct (sorted_voc texts)"
  "set (sorted_voc texts) = set (concat (map text_to_word_sequence texts))"
proof -
  have m: "mset (sorted_voc texts) = mset (map fst (word_counts texts))"
    by (simp add: sorted_voc_def)
  show "distinct (sorted_voc texts)"
    using m word_counts_keys(1) [of texts] by (metis mset_eq_imp_distinct_iff)
  have "set (sorted_voc texts) = set (map fst (word_counts texts))"
    using m by (rule mset_eq_setD)
  then show "set (sorted_voc texts) = set (concat (map text_to_word_sequence texts))"
    using word_counts_keys(2) [of texts] by simp
qed

lemma fit_on_texts_cols:
  "map fst (fit_on_texts texts) = sorted_voc texts"
  "map snd (fit_on_texts texts) = [1 ..< length (sorted_voc texts) + 1]"
  "length (fit_on_texts texts) = length (sorted_voc texts)"
  by (simp_all add: fit_on_texts_def del: upt_Suc)

lemma fit_on_texts_nth:
  "k < length (fit_on_texts texts) \<Longrightarrow> fit_on_texts texts ! k = (sorted_voc texts ! k, Suc k)"
  by (simp add: fit_on_texts_def del: upt_Suc)

lemma fit_on_texts_range:
  assumes "(w, i) \<in> set (fit_on_texts texts)"
  shows "1 \<le> i \<and> i \<le> length (fit_on_texts texts) \<and> fit_on_texts texts ! (i - 1) = (w, i)"
proof -
  obtain k where "k < length (fit_on_texts texts)" "fit_on_texts texts ! k = (w, i)"
    using assms by (metis in_set_conv_nth)
  then show ?thesis
    using fit_on_texts_nth [of k texts] by auto
qed

lemma entities_index_get_None:
  "entities_index_get word_index k = None \<longleftrightarrow> k \<notin> fst ` set word_index"
  by (simp add: entities_index_get_def map_of_eq_None_iff)

lemma fit_on_texts_bij:
  "bij_betw (\<lambda>w. the (entities_index_get (fit_on_texts texts) w))
     (fst ` set (fit_on_texts texts)) {1 .. length (fit_on_texts texts)}"
proof -
  let ?wi = "fit_on_texts texts"
  let ?f = "\<lambda>w. the (entities_index_get ?wi w)"
  have d: "distinct (map fst ?wi)"
    by (simp add: fit_on_texts_cols sorted_voc_props)
  have val: "\<And>w i. (w, i) \<in> set ?wi \<Longrightarrow> ?f w = i"
    using d by (simp add: entities_index_get_def)
  have inj: "inj_on ?f (fst ` set ?wi)"
  proof (rule inj_onI)
    fix x y assume "x \<in> fst ` set ?wi" "y \<in> fst ` set ?wi" and eq: "?f x = ?f y"
    then obtain i j where x: "(x, i) \<in> set ?wi" and y: "(y, j) \<in> set ?wi" by auto
    then have "i = j" using eq val by metis
    then have "?wi ! (i - 1) = (x, i)" "?wi ! (i - 1) = (y, i)"
      using fit_on_texts_range x y by blast+
    then show "x = y" by simp
  qed
  have img: "?f ` (fst ` set ?wi) = {1 .. length ?wi}"
  proof (intro equalityI subsetI)
    fix i assume "i \<in> ?f ` (fst ` set ?wi)"
    then obtain w j where wj: "(w, j) \<in> set ?wi" and "i = ?f w" by auto
    then have "i = j" using val by metis
    then show "i \<in> {1 .. length ?wi}"
      using fit_on_texts_range [OF wj] by simp
  next
    fix i assume "i \<in> {1 .. length ?wi}"
    then have k: "i - 1 < length ?wi" and s: "Suc (i - 1) = i" by auto
    then have m: "(sorted_voc texts ! (i - 1), i) \<in> set ?wi"
      using fit_on_texts_nth [OF k] by (metis nth_mem)
    then have "?f (sorted_voc texts ! (i - 1)) = i" by (rule val)
    then show "i \<in> ?f ` (fst ` set ?wi)"
      using m by (metis (no_types, lifting) fst_conv image_eqI)
  qed
  show ?thesis
    using inj img by (simp add: bij_betw_def)
qed

lemma np_unique_set: "set (np_unique values) = set values"
  by (simp add: np_unique_def)

lemma plain_tokens:
  assumes "\<forall>e \<in> set texts. plain_entity e"
  shows "set (concat (map text_to_word_sequence texts)) = lower ` set texts"
proof -
  have "\<And>e. e \<in> set texts \<Longrightarrow> text_to_word_sequence e = [lower e]"
    using assms text_to_word_sequence_plain by (simp add: plain_entity_def)
  then show ?thesis by auto
qed

lemma entities_index_keys:
  assumes "\<forall>e \<in> set (head_tail_values families). plain_entity e"
  shows "fst ` set (entities_index families) = lower ` set (head_tail_values families)"
proof -
  have "\<forall>e \<in> set (np_unique (head_tail_values families)). plain_entity e"
    using assms by (simp add: np_unique_set)
  from plain_tokens [OF this]
  have "set (sorted_voc (np_unique (head_tail_values families))) = lower ` set (head_tail_values families)"
    by (simp add: sorted_voc_props np_unique_set)
  then have "set (map fst (entities_index families)) = lower ` set (head_tail_values families)"
    by (simp only: entities_index_def fit_on_texts_cols)
  then show ?thesis by simp
qed

text \<open>
  On a frame whose heads and tails are strs that are not empty and hold no space, the
  vocabulary is what the notebook says of it: each lowercased entity is a key exactly
  once, and the lookup is a bijection from the lowercased entities onto \<open>1, ..., N\<close>,
  where \<open>N\<close> is the number of keys.
\<close>

lemma entities_index_plain:
  assumes "\<forall>e \<in> set (head_tail_values families). plain_entity e"
  shows "distinct (map fst (entities_index families))
       \<and> fst ` set (entities_index families) = lower ` set (head_tail_values families)
       \<and> (\<forall>e \<in> set (head_tail_values families).
             \<exists>i. entities_index_get (entities_index families) (lower e) = Some i
                 \<and> 1 \<le> i \<and> i \<le> length (entities_index families))
       \<and> bij_betw (\<lambda>w. the (entities_index_get (entities_index families) w))
             (lower ` set (head_tail_values families)) {1 .. length (entities_index families)}
       \<and> length (entities_index families) = card (lower ` set (head_tail_values families))"
proof -
  let ?wi = "entities_index families"
  have d: "distinct (map fst ?wi)"
    by (simp add: entities_index_def fit_on_texts_cols sorted_voc_props)
  note k = entities_index_keys [OF assms]
  have b: "bij_betw (\<lambda>w. the (entities_index_get ?wi w))
             (lower ` set (head_tail_values families)) {1 .. length ?wi}"
    using fit_on_texts_bij [of "np_unique (head_tail_values families)"] k
    by (simp add: entities_index_def)
  have g: "\<forall>e \<in> set (head_tail_values families).
             \<exists>i. entities_index_get ?wi (lower e) = Some i \<and> 1 \<le> i \<and> i \<le> length ?wi"
  proof
    fix e assume "e \<in> set (head_tail_values families)"
    then have "lower e \<in> fst ` set ?wi" using k by simp
    then obtain i where i: "(lower e, i) \<in> set ?wi" by auto
    then have "entities_index_get ?wi (lower e) = Some i"
      using d by (simp add: entities_index_get_def)
    moreover have "1 \<le> i \<and> i \<le> length ?wi"
      using i fit_on_texts_range by (simp add: entities_index_def)
    ultimately show "\<exists>i. entities_index_get ?wi (lower e) = Some i \<and> 1 \<le> i \<and> i \<le> length ?wi"
      by blast
  qed
  have "card (fst ` set ?wi) = length ?wi"
    using d by (metis distinct_card length_map list.set_map)
  then have c: "length ?wi = card (lower ` set (head_tail_values families))"
    using k by simp
  show ?thesis using d k g b c by (intro conjI)
qed


text \<open>
  A frame with a head or tail that is not a str does not get a vocabulary: with a
  missing head next to strs the sort fails, and with numbers only the tokenizer fails.
\<close>

lemma load_entities_index_strs:
  "list_all is_str (head_tail_cells families) \<Longrightarrow>
     load_entities_index families = Inr (entities_index (str_triples families))"
  by (simp add: load_entities_index_def)

lemma load_entities_index_not_strs:
  "load_entities_index missing_head_frame = Inl TypeError"
  "load_entities_index numbered_frame = Inl AttributeError"
  by (simp_all add: load_entities_index_def head_tail_cells_def missing_head_frame_def
        numbered_frame_def)

text \<open>
  C6 at a file with the line \<^verbatim>\<open>new york<TAB>in<TAB>paris\<close>. The frame has two entities,
  \<^verbatim>\<open>new york\<close> and \<^verbatim>\<open>paris\<close>, both strs, so the vocabulary is built; but the tokenizer
  cuts the head into two words, the vocabulary has three keys, and the entity
  \<^verbatim>\<open>new york\<close> is none of them. The encoding cell, which looks the whole entity up, gets
  no index for it and fails at the cast.
\<close>

theorem space_in_entity_breaks_index:
  "head_tail_cells spaced_frame = [Str ''new york'', Str ''paris'']
     \<and> load_entities_index spaced_frame = Inr [(''new'', 1), (''york'', 2), (''paris'', 3)]
     \<and> entities_index_get [(''new'', 1), (''york'', 2), (''paris'', 3)] (lower ''new york'') = None
     \<and> X_of [(''new'', 1), (''york'', 2), (''paris'', 3)]
            (zip [0] (get_dummies (str_triples spaced_frame))) = Inl IntCastError"
proof -
  have "head_tail_cells spaced_frame = [Str ''new york'', Str ''paris'']"
    by (simp add: head_tail_cells_def spaced_frame_def)
  moreover have "load_entities_index spaced_frame
                   = Inr [(''new'', 1), (''york'', 2), (''paris'', 3)]"
    by code_simp
  moreover have "entities_index_get [(''new'', 1), (''york'', 2), (''paris'', 3)]
                   (lower ''new york'') = None"
    by code_simp
  moreover have "X_of [(''new'', 1), (''york'', 2), (''paris'', 3)]
            (zip [0] (get_dummies (str_triples spaced_frame))) = Inl IntCastError"
    by code_simp
  ultimately show ?thesis by (intro conjI)
qed

text \<open>
  On the 24 entity names of the notebook's data the word index is the one that the
  notebook prints: the names in ascending order, numbered from 1 to 24.
\<close>

lemma notebook_word_index:
  "fit_on_texts (np_unique families_entities)
     = [(''alf'', 1), (''and'', 2), (''ang'', 3), (''art'', 4), (''cha'', 5), (''che'', 6),
        (''chr'', 7), (''chs'', 8), (''col'', 9), (''emi'', 10), (''fra'', 11), (''gin'', 12),
        (''jam'', 13), (''jen'', 14), (''luc'', 15), (''maa'', 16), (''mar'', 17), (''mat'', 18),
        (''pen'', 19), (''pie'', 20), (''rob'', 21), (''sop'', 22), (''tom'', 23), (''vic'', 24)]"
  by code_simp

section \<open>Index encoding and the rows of the embedding matrix\<close>

lemma astype_int_ok:
  "\<forall>c \<in> set cells. fst c \<noteq> None \<and> snd c \<noteq> None \<Longrightarrow>
     astype_int cells = Inr (map (\<lambda>c. (int (the (fst c)), int (the (snd c)))) cells)"
  by (induction cells rule: astype_int.induct) auto

lemma astype_int_fail:
  "\<exists>c \<in> set cells. fst c = None \<or> snd c = None \<Longrightarrow> astype_int cells = Inl IntCastError"
  by (induction cells rule: astype_int.induct) (auto split: sum.splits)

lemma X_of_fail:
  assumes "p \<in> set data"
    and "lower (head (snd p)) \<notin> fst ` set word_index \<or> lower (tail (snd p)) \<notin> fst ` set word_index"
  shows "X_of word_index data = Inl IntCastError"
proof -
  let ?c = "(entities_index_get word_index (lower (head (snd p))),
             entities_index_get word_index (lower (tail (snd p))))"
  have "?c \<in> set (applymap_index word_index (map snd data))"
    using assms(1) by (force simp: applymap_index_def)
  moreover have "fst ?c = None \<or> snd ?c = None"
    using assms(2) by (simp add: entities_index_get_None)
  ultimately show ?thesis
    unfolding X_of_def by (intro astype_int_fail) blast
qed

lemma X_of_ok:
  assumes "X_of word_index data = Inr xs"
  shows "xs = map (\<lambda>p. (int (the (entities_index_get word_index (lower (head (snd p))))),
                         int (the (entities_index_get word_index (lower (tail (snd p))))))) data"
    and "\<forall>p \<in> set data. lower (head (snd p)) \<in> fst ` set word_index
                         \<and> lower (tail (snd p)) \<in> fst ` set word_index"
proof -
  show in_voc: "\<forall>p \<in> set data. lower (head (snd p)) \<in> fst ` set word_index
                         \<and> lower (tail (snd p)) \<in> fst ` set word_index"
  proof (rule ccontr)
    assume "\<not> ?thesis"
    then obtain p where "p \<in> set data"
      "lower (head (snd p)) \<notin> fst ` set word_index \<or> lower (tail (snd p)) \<notin> fst ` set word_index"
      by blast
    then have "X_of word_index data = Inl IntCastError" by (rule X_of_fail)
    then show False using assms by simp
  qed
  have "\<forall>c \<in> set (applymap_index word_index (map snd data)). fst c \<noteq> None \<and> snd c \<noteq> None"
  proof
    fix c assume "c \<in> set (applymap_index word_index (map snd data))"
    then obtain p where p: "p \<in> set data"
      and c: "c = (entities_index_get word_index (lower (head (snd p))),
                   entities_index_get word_index (lower (tail (snd p))))"
      by (auto simp: applymap_index_def)
    have "lower (head (snd p)) \<in> fst ` set word_index" "lower (tail (snd p)) \<in> fst ` set word_index"
      using in_voc p by blast+
    then show "fst c \<noteq> None \<and> snd c \<noteq> None"
      unfolding c fst_conv snd_conv entities_index_get_None by simp
  qed
  from astype_int_ok [OF this] assms
  show "xs = map (\<lambda>p. (int (the (entities_index_get word_index (lower (head (snd p))))),
                         int (the (entities_index_get word_index (lower (tail (snd p))))))) data"
    by (simp add: X_of_def applymap_index_def comp_def)
qed

lemma fit_on_texts_the:
  assumes "w \<in> fst ` set (fit_on_texts texts)"
  shows "1 \<le> the (entities_index_get (fit_on_texts texts) w)
       \<and> the (entities_index_get (fit_on_texts texts) w) \<le> length (fit_on_texts texts)"
proof -
  obtain i where i: "(w, i) \<in> set (fit_on_texts texts)" using assms by auto
  have "distinct (map fst (fit_on_texts texts))"
    by (simp add: fit_on_texts_cols sorted_voc_props)
  then have "entities_index_get (fit_on_texts texts) w = Some i"
    using i by (simp add: entities_index_get_def)
  then show ?thesis using fit_on_texts_range [OF i] by simp
qed

lemma np_row_in_range: "k < length E \<Longrightarrow> np_row E (int k) = Inr (E ! k)"
  by (simp add: np_row_def Let_def)

lemma tsne_tokens_zip:
  "m + length vs \<le> length E \<Longrightarrow>
     tsne_tokens E (zip vs [m + 1 ..< m + length vs + 1]) = Inr (zip vs (drop m E))"
proof (induction vs arbitrary: m)
  case Nil
  then show ?case by simp
next
  case (Cons v vs)
  have u: "[m + 1 ..< m + length (v # vs) + 1] = (m + 1) # [Suc m + 1 ..< Suc m + length vs + 1]"
    by (simp add: upt_conv_Cons del: upt_Suc)
  have r: "np_row E (int (m + 1) - 1) = Inr (E ! m)"
    using Cons.prems np_row_in_range [of m E] by simp
  have d: "drop m E = E ! m # drop (Suc m) E"
    using Cons.prems by (simp add: Cons_nth_drop_Suc)
  have "tsne_tokens E (zip vs [Suc m + 1 ..< Suc m + length vs + 1]) = Inr (zip vs (drop (Suc m) E))"
    using Cons.prems by (intro Cons.IH) simp
  then show ?case
    unfolding u d using r by simp
qed

lemma tsne_tokens_fit_on_texts:
  assumes "length E = length (fit_on_texts texts)"
  shows "tsne_tokens E (fit_on_texts texts) = Inr (zip (map fst (fit_on_texts texts)) E)"
  using tsne_tokens_zip [of 0 "sorted_voc texts" E] assms
  by (simp add: fit_on_texts_def del: upt_Suc)

lemma length_Embedding: "length (Embedding input_dim output_dim initializer) = input_dim"
  by (simp add: Embedding_def)

lemma entities_index_nonempty:
  assumes "entities_index families \<noteq> []"
  shows "snd (hd (entities_index families)) = 1"
    and "snd (last (entities_index families)) = length (entities_index families)"
proof -
  let ?t = "np_unique (head_tail_values families)"
  have n: "0 < length (fit_on_texts ?t)"
    using assms by (simp add: entities_index_def)
  have "hd (fit_on_texts ?t) = fit_on_texts ?t ! 0"
    using n by (simp add: hd_conv_nth)
  then show "snd (hd (entities_index families)) = 1"
    using fit_on_texts_nth [OF n] by (simp add: entities_index_def)
  have k: "length (fit_on_texts ?t) - 1 < length (fit_on_texts ?t)"
    using n by simp
  have "last (fit_on_texts ?t) = fit_on_texts ?t ! (length (fit_on_texts ?t) - 1)"
    using n by (simp add: last_conv_nth)
  then show "snd (last (entities_index families)) = length (entities_index families)"
    using fit_on_texts_nth [OF k] n by (simp add: entities_index_def)
qed

text \<open>
  C3. The embedding matrix is built with as many rows as the vocabulary has keys, and
  any matrix \<open>E\<close> of that shape has rows \<open>0, ..., N - 1\<close> only. The vocabulary indices, and
  so the indices that the encoder emits, lie in \<open>1, ..., N\<close>; the last word has index \<open>N\<close>,
  for which the matrix has no row. The plotting loop reads the word with index \<open>i\<close> at
  row \<open>i - 1\<close>: the first word (index 1) at row 0, and word \<open>k\<close> of the vocabulary at row
  \<open>k\<close> of the matrix throughout.
\<close>

theorem embedding_rows_versus_indices:
  assumes "entities_index families \<noteq> []"
    and "length E = length (entities_index families)"
  shows "length (Embedding (length (entities_index families)) output_dim initializer)
           = length (entities_index families)
       \<and> (\<forall>(w, i) \<in> set (entities_index families).
             1 \<le> i \<and> i \<le> length E \<and> np_row E (int i - 1) = Inr (E ! (i - 1)))
       \<and> (X_of (entities_index families) data = Inr xs \<longrightarrow>
             (\<forall>(h, t) \<in> set xs. 1 \<le> h \<and> h \<le> int (length E) \<and> 1 \<le> t \<and> t \<le> int (length E)))
       \<and> snd (last (entities_index families)) = length E
       \<and> embedding_lookup E (int (snd (last (entities_index families)))) = None
       \<and> snd (hd (entities_index families)) = 1
       \<and> np_row E (int (snd (hd (entities_index families))) - 1) = Inr (E ! 0)
       \<and> tsne_tokens E (entities_index families) = Inr (zip (map fst (entities_index families)) E)"
proof -
  let ?wi = "entities_index families"
  have wi: "?wi = fit_on_texts (np_unique (head_tail_values families))"
    by (simp add: entities_index_def)
  have pos: "0 < length E" using assms by simp
  have a: "length (Embedding (length ?wi) output_dim initializer) = length ?wi"
    by (rule length_Embedding)
  have b: "\<forall>(w, i) \<in> set ?wi. 1 \<le> i \<and> i \<le> length E \<and> np_row E (int i - 1) = Inr (E ! (i - 1))"
  proof (intro ballI, clarify)
    fix w i assume "(w, i) \<in> set ?wi"
    then have r: "1 \<le> i" "i \<le> length E"
      using fit_on_texts_range [of w i] assms(2) by (simp_all add: wi)
    then have "int i - 1 = int (i - 1)" "i - 1 < length E" by simp_all
    then show "1 \<le> i \<and> i \<le> length E \<and> np_row E (int i - 1) = Inr (E ! (i - 1))"
      using r np_row_in_range [of "i - 1" E] by simp
  qed
  have c: "X_of ?wi data = Inr xs \<longrightarrow>
             (\<forall>(h, t) \<in> set xs. 1 \<le> h \<and> h \<le> int (length E) \<and> 1 \<le> t \<and> t \<le> int (length E))"
  proof (intro impI ballI, clarify)
    fix h t assume ok: "X_of ?wi data = Inr xs" and "(h, t) \<in> set xs"
    then obtain p where p: "p \<in> set data"
      and h: "h = int (the (entities_index_get ?wi (lower (head (snd p)))))"
      and t: "t = int (the (entities_index_get ?wi (lower (tail (snd p)))))"
      using X_of_ok(1) [OF ok] by auto
    have "lower (head (snd p)) \<in> fst ` set ?wi" "lower (tail (snd p)) \<in> fst ` set ?wi"
      using X_of_ok(2) [OF ok] p by blast+
    then show "1 \<le> h \<and> h \<le> int (length E) \<and> 1 \<le> t \<and> t \<le> int (length E)"
      unfolding h t using fit_on_texts_the assms(2) by (simp add: wi)
  qed
  note e = entities_index_nonempty [OF assms(1)]
  have d: "snd (last ?wi) = length E" using e(2) assms(2) by simp
  have f: "embedding_lookup E (int (snd (last ?wi))) = None"
    unfolding d by (simp add: embedding_lookup_def)
  have g: "np_row E (int (snd (hd ?wi)) - 1) = Inr (E ! 0)"
    using e(1) pos np_row_in_range [of 0 E] by simp
  have h: "tsne_tokens E ?wi = Inr (zip (map fst ?wi) E)"
    using tsne_tokens_fit_on_texts assms(2) by (simp add: wi)
  show ?thesis using a b c d f e(1) g h by (intro conjI)
qed

theorem embedding_rows_versus_indices_witness:
  "entities_index two_triples = [(''ang'', 1), (''art'', 2), (''cha'', 3), (''sop'', 4)]
     \<and> four_rows = [[0, 0], [1, 1], [2, 2], [3, 3]]
     \<and> X_of (entities_index two_triples) (zip [0, 1] (get_dummies two_triples)) = Inr [(3, 2), (4, 1)]
     \<and> embedding_lookup four_rows 4 = None
     \<and> np_row four_rows 0 = Inr [0, 0]
     \<and> tsne_tokens four_rows (entities_index two_triples)
         = Inr [(''ang'', [0, 0]), (''art'', [1, 1]), (''cha'', [2, 2]), (''sop'', [3, 3])]"
proof -
  have e: "entities_index two_triples = [(''ang'', 1), (''art'', 2), (''cha'', 3), (''sop'', 4)]"
    by code_simp
  have r: "four_rows = [[0, 0], [1, 1], [2, 2], [3, 3]]"
    by (simp add: four_rows_def Embedding_def upt_rec)
  have x: "X_of (entities_index two_triples) (zip [0, 1] (get_dummies two_triples)) = Inr [(3, 2), (4, 1)]"
    unfolding e by code_simp
  have n: "entities_index two_triples \<noteq> []" "length four_rows = length (entities_index two_triples)"
    by (simp_all add: e r)
  from embedding_rows_versus_indices
    [OF n, where data = "zip [0, 1] (get_dummies two_triples)" and xs = "[(3, 2), (4, 1)]"]
  have "embedding_lookup four_rows (int (snd (last (entities_index two_triples)))) = None"
    "np_row four_rows (int (snd (hd (entities_index two_triples))) - 1) = Inr (four_rows ! 0)"
    "tsne_tokens four_rows (entities_index two_triples)
       = Inr (zip (map fst (entities_index two_triples)) four_rows)"
    by blast+
  then have "embedding_lookup four_rows 4 = None"
    "np_row four_rows 0 = Inr [0, 0]"
    "tsne_tokens four_rows (entities_index two_triples)
       = Inr [(''ang'', [0, 0]), (''art'', [1, 1]), (''cha'', [2, 2]), (''sop'', [3, 3])]"
    by (simp_all add: e r)
  then show ?thesis using e r x by (intro conjI)
qed

text \<open>
  C4, as the code has it. For a string that is not a key, the lookup answers \<open>None\<close> and
  raises nothing; the cast of the looked-up frame to integers then fails, so the
  encoding of a frame with such a row yields the cast error and no index list.
\<close>

theorem absent_entity_cast_error:
  assumes "p \<in> set data"
    and "lower (head (snd p)) \<notin> fst ` set word_index \<or> lower (tail (snd p)) \<notin> fst ` set word_index"
  shows "(entities_index_get word_index (lower (head (snd p))) = None
            \<or> entities_index_get word_index (lower (tail (snd p))) = None)
       \<and> X_of word_index data = Inl IntCastError"
  using assms X_of_fail [OF assms] by (simp add: entities_index_get_None)

theorem absent_entity_cast_error_witness:
  "lower (head stray_row) = ''zed''
     \<and> ''zed'' \<notin> fst ` set (entities_index two_triples)
     \<and> entities_index_get (entities_index two_triples) ''zed'' = None
     \<and> X_of (entities_index two_triples) [(0, stray_row)] = Inl IntCastError"
proof -
  have e: "entities_index two_triples = [(''ang'', 1), (''art'', 2), (''cha'', 3), (''sop'', 4)]"
    by code_simp
  have l: "lower (head stray_row) = ''zed''"
    unfolding stray_row_def by code_simp
  have m: "''zed'' \<notin> fst ` set (entities_index two_triples)"
    by (simp add: e)
  have "(0, stray_row) \<in> set [(0 :: nat, stray_row)]" by simp
  from absent_entity_cast_error [OF this, of "entities_index two_triples"]
  have "X_of (entities_index two_triples) [(0, stray_row)] = Inl IntCastError"
    using l m by simp
  moreover have "entities_index_get (entities_index two_triples) ''zed'' = None"
    using m by (simp add: entities_index_get_None)
  ultimately show ?thesis using l m by (intro conjI)
qed

text \<open>
  C4, as the claim has it, fails at the lookup: for the head \<^verbatim>\<open>Zed\<close> the looked-up frame
  holds a missing value, produced without any error.
\<close>

theorem lookup_returns_none_counterexample:
  "applymap_index (entities_index two_triples) [stray_row] = [(None, Some 2)]"
proof -
  have e: "entities_index two_triples = [(''ang'', 1), (''art'', 2), (''cha'', 3), (''sop'', 4)]"
    by code_simp
  show ?thesis
    unfolding e stray_row_def by code_simp
qed

section \<open>The forward pass is symmetric\<close>

lemma map2_add_commute: "map2 (+) (u :: real list) v = map2 (+) v u"
proof (induction u arbitrary: v)
  case Nil
  then show ?case by simp
next
  case (Cons x u)
  then show ?case by (cases v) (simp_all add: add.commute)
qed

lemma pooling_swap:
  "GlobalAveragePooling1D [e_head, e_tail] = GlobalAveragePooling1D [e_tail, e_head]"
  using map2_add_commute [of e_head e_tail] by (simp add: GlobalAveragePooling1D_def)

text \<open>
  C2. Swapping head and tail does not change the result of the forward pass: the score
  vectors are equal, and a pair for which one lookup has no row has none either way.
\<close>

theorem forward_symmetric: "forward w (h, t) = forward w (t, h)"
proof (cases "embedding_lookup (embeddings w) h")
  case None
  then show ?thesis by (simp add: forward_def split: option.splits)
next
  case (Some e_head)
  show ?thesis
  proof (cases "embedding_lookup (embeddings w) t")
    case None
    then show ?thesis by (simp add: forward_def split: option.splits)
  next
    case (Some e_tail)
    with \<open>embedding_lookup (embeddings w) h = Some e_head\<close> show ?thesis
      using pooling_swap [of e_head e_tail] by (simp add: forward_def)
  qed
qed

lemma forward_defined:
  "forward w (h, t) \<noteq> None \<longleftrightarrow>
     0 \<le> h \<and> h < int (length (embeddings w)) \<and> 0 \<le> t \<and> t < int (length (embeddings w))"
  by (auto simp: forward_def embedding_lookup_def split: option.splits)

end
